theory Spec2Isabelle
  imports Main "HOL-Library.AList"
begin

section \<open>Data model\<close>

text \<open>
  A \<open>std::chrono::steady_clock::time_point\<close> is the number of clock ticks since the
  clock's epoch. The tick of \<open>steady_clock\<close> is the nanosecond on the toolchains the
  library builds with; a default-constructed time point is the epoch, 0.
\<close>

type_synonym time_point = int

text \<open>
  Modelled from the spec: the struct \<open>TraceData\<close> is declared in
  \<open>velox/common/process/TraceContext.h\<close>, which is not among the sources; only its
  uses in \<open>TraceContext.cpp\<close> are. The spec gives its five fields, all zero in a fresh
  entry. The counters and the millisecond totals are integers; their machine width is
  part of the missing declaration and is not modelled.
\<close>

record TraceData =
  numThreads :: int
  numEnters :: int
  totalMs :: int
  maxMs :: int
  startTime :: time_point

definition TraceData_default :: TraceData where
  "TraceData_default =
     \<lparr>numThreads = 0, numEnters = 0, totalMs = 0, maxMs = 0, startTime = 0\<rparr>"

text \<open>
  \<open>folly::F14FastMap<std::string, TraceData>\<close>: a hash map with unique keys and an
  unspecified iteration order. It is an association list whose order is the iteration
  order: \<open>find\<close> is \<^const>\<open>map_of\<close>, storing through the reference that
  \<open>operator[]\<close> returns is \<^const>\<open>AList.update\<close> (a new key is added, an old one
  keeps its place), \<open>erase\<close> is \<^const>\<open>AList.delete\<close>.
\<close>

type_synonym counts = "(string \<times> TraceData) list"

text \<open>\<open>counts[k]\<close> read: the entry of \<open>k\<close>, default-constructed when absent.\<close>

definition subscript :: "counts \<Rightarrow> string \<Rightarrow> TraceData" where
  "subscript counts k =
     (case map_of counts k of None \<Rightarrow> TraceData_default | Some d \<Rightarrow> d)"

text \<open>
  The members \<open>label_\<close>, \<open>enterTime_\<close> and \<open>isTemporary_\<close> of a \<open>TraceContext\<close>
  instance (a name cannot end with an underscore here).
\<close>

record TraceContext =
  ctx_label :: string
  ctx_enterTime :: time_point
  ctx_isTemporary :: bool

text \<open>
  \<open>std::chrono::duration_cast<std::chrono::milliseconds>(d).count()\<close> for a duration
  of \<open>d\<close> nanosecond ticks: division by \<open>10^6\<close>, truncated towards zero.
\<close>

definition duration_cast_ms :: "int \<Rightarrow> int" where
  "duration_cast_ms d = sgn d * (\<bar>d\<bar> div 1000000)"

section \<open>TraceContext: constructor and destructor\<close>

text \<open>
  The constructor, run on a thread whose private map is \<open>counts\<close>; \<open>now\<close> is the value
  \<open>steady_clock::now()\<close> returns in the member initialiser. The result is the new
  instance and the thread's map after the body. \<open>TraceHistory::push\<close> writes to a ring
  buffer of another component and touches neither the instance nor the map.
\<close>

definition TraceContext_ctor ::
  "string \<Rightarrow> bool \<Rightarrow> time_point \<Rightarrow> counts \<Rightarrow> TraceContext \<times> counts" where
  "TraceContext_ctor label isTemporary now counts =
     (let this = \<lparr>ctx_label = label, ctx_enterTime = now, ctx_isTemporary = isTemporary\<rparr>;
          data = subscript counts (ctx_label this);
          data = data\<lparr>numThreads := numThreads data + 1\<rparr>;
          data = (if numThreads data = 1
                  then data\<lparr>startTime := ctx_enterTime this\<rparr> else data);
          data = data\<lparr>numEnters := numEnters data + 1\<rparr>
      in (this, AList.update (ctx_label this) data counts))"

text \<open>
  The body of the constructor in two parts, as a reader on another thread can find the
  map between them (the aggregator reads the maps of other threads without
  synchronisation): the map after \<open>++data.numThreads\<close>, and what the remaining
  statements, from the test of \<open>numThreads\<close> to \<open>++data.numEnters\<close>, do to it.
\<close>

definition TraceContext_ctor_upto_48 :: "string \<Rightarrow> counts \<Rightarrow> counts" where
  "TraceContext_ctor_upto_48 label counts =
     (let data = subscript counts label;
          data = data\<lparr>numThreads := numThreads data + 1\<rparr>
      in AList.update label data counts)"

definition TraceContext_ctor_from_49 :: "string \<Rightarrow> time_point \<Rightarrow> counts \<Rightarrow> counts" where
  "TraceContext_ctor_from_49 label enterTime counts =
     (let data = subscript counts label;
          data = (if numThreads data = 1 then data\<lparr>startTime := enterTime\<rparr> else data);
          data = data\<lparr>numEnters := numEnters data + 1\<rparr>
      in AList.update label data counts)"

text \<open>
  The destructor; \<open>now\<close> is the value of \<open>steady_clock::now()\<close> in its body. When
  \<open>find\<close> returns the end iterator the code dereferences it, which is undefined:
  that is the result \<open>None\<close>. \<open>std::max<uint64_t>\<close> compares at unsigned 64-bit
  width, which is \<^const>\<open>max\<close> on the integers for the non-negative elapsed times
  that a monotonic clock gives; the same holds for the sum.
\<close>

definition TraceContext_dtor ::
  "TraceContext \<Rightarrow> time_point \<Rightarrow> counts \<Rightarrow> counts option" where
  "TraceContext_dtor this now counts =
     (case map_of counts (ctx_label this) of
        None \<Rightarrow> None
      | Some it \<Rightarrow>
          (let data = it\<lparr>numThreads := numThreads it - 1\<rparr>
           in if numThreads data = 0 \<and> ctx_isTemporary this
              then Some (AList.delete (ctx_label this) counts)
              else
                (let ms = duration_cast_ms (now - ctx_enterTime this);
                     data = data\<lparr>totalMs := totalMs data + ms\<rparr>;
                     data = data\<lparr>maxMs := max (maxMs data) ms\<rparr>
                 in Some (AList.update (ctx_label this) data counts))))"

section \<open>The aggregator\<close>

text \<open>
  The body of the inner loop of \<open>status()\<close>, for one pair \<open>[k, v]\<close> of a thread's map:
  \<open>sofar\<close> is the entry of \<open>k\<close> in the result so far, created all-zero when \<open>k\<close> is new to it.
\<close>

definition merge_entry :: "string \<times> TraceData \<Rightarrow> counts \<Rightarrow> counts" where
  "merge_entry kv total' =
     (let k = fst kv; v = snd kv;
          sofar = subscript total' k;
          sofar = (if numEnters sofar = 0 then sofar\<lparr>startTime := startTime v\<rparr>
                   else if numEnters v > 0
                     then sofar\<lparr>startTime := min (startTime sofar) (startTime v)\<rparr>
                   else sofar);
          sofar = sofar\<lparr>numThreads := numThreads sofar + numThreads v\<rparr>;
          sofar = sofar\<lparr>numEnters := numEnters sofar + numEnters v\<rparr>;
          sofar = sofar\<lparr>totalMs := totalMs sofar + totalMs v\<rparr>;
          sofar = sofar\<lparr>maxMs := max (maxMs sofar) (maxMs v)\<rparr>
      in AList.update k sofar total')"

text \<open>
  \<open>status()\<close>: \<open>registry->forAllValues\<close> visits the map of every registered thread;
  the registry is the list of these maps, in the order of the visit.
\<close>

definition status :: "counts list \<Rightarrow> counts" where
  "status registry = fold (\<lambda>counts total'. fold merge_entry counts total') registry []"

text \<open>
  \<open>operator<<\<close> of an output stream on integers: decimal digits, a minus sign before
  a negative value.
\<close>

fun digits :: "nat \<Rightarrow> string" where
  "digits n =
     (if n < 10 then [''0123456789'' ! n]
      else digits (n div 10) @ [''0123456789'' ! (n mod 10)])"

definition show_int :: "int \<Rightarrow> string" where
  "show_int i = (if i < 0 then CHR ''-'' # digits (nat (- i)) else digits (nat i))"

text \<open>
  The text that the body of the loop of \<open>statusLine()\<close> writes for one pair, \<open>now\<close>
  being the clock reading taken before the snapshot; \<open>std::endl\<close> writes a line feed.
  The quotient of C++ is \<^const>\<open>divide\<close> on the integers when the total is not
  negative and the count is positive.
\<close>

definition status_line_of :: "time_point \<Rightarrow> string \<times> TraceData \<Rightarrow> string" where
  "status_line_of now pair =
     (let continued = duration_cast_ms (now - startTime (snd pair))
      in fst pair @ ''='' @ show_int (numThreads (snd pair)) @ '' entered ''
         @ show_int (numEnters (snd pair)) @ '' avg ms ''
         @ show_int (totalMs (snd pair) div numEnters (snd pair)) @ '' max ms ''
         @ show_int (maxMs (snd pair)) @ '' continuous for '' @ show_int continued
         @ [CHR 0x0A])"

text \<open>
  The loop of \<open>statusLine()\<close> over the snapshot, \<open>out\<close> being the text written so far.
  An integer division by zero is undefined in C++: that is the result \<open>None\<close>.
\<close>

fun statusLine_loop :: "time_point \<Rightarrow> counts \<Rightarrow> string \<Rightarrow> string option" where
  "statusLine_loop now [] out = Some out"
| "statusLine_loop now (pair # rest) out =
     (if numThreads (snd pair) \<noteq> 0
      then (if numEnters (snd pair) = 0 then None
            else statusLine_loop now rest (out @ status_line_of now pair))
      else statusLine_loop now rest out)"

definition statusLine :: "time_point \<Rightarrow> counts list \<Rightarrow> string option" where
  "statusLine now registry = statusLine_loop now (status registry) []"

text \<open>
  The report in the words of the spec: one line for every label of the snapshot whose
  \<open>numThreads\<close> is positive, none for the others.
\<close>

definition statusLine_spec :: "time_point \<Rightarrow> counts \<Rightarrow> string" where
  "statusLine_spec now snapshot =
     concat (map (status_line_of now) (filter (\<lambda>pair. numThreads (snd pair) > 0) snapshot))"

section \<open>A thread and its scoped instances\<close>

text \<open>
  The state of one thread: its private map, the \<open>TraceContext\<close> instances that are
  alive on it (the most recent first), and the last reading of the monotonic clock.
\<close>

record thread_state =
  counts_of :: counts
  live :: "TraceContext list"
  clock :: time_point

definition thread_init :: "time_point \<Rightarrow> thread_state" where
  "thread_init t0 = \<lparr>counts_of = [], live = [], clock = t0\<rparr>"

text \<open>
  What a thread does with the component: it constructs an instance, or destroys the
  \<open>i\<close>-th live one, each time \<open>dt\<close> ticks of the clock after the last reading.
  Scoped instances are destroyed most recent first, which is \<open>i = 0\<close>.
\<close>

datatype op = Enter string bool nat | Leave nat nat

fun step :: "op \<Rightarrow> thread_state \<Rightarrow> thread_state option" where
  "step (Enter label isTemporary dt) s =
     (let now = clock s + int dt;
          r = TraceContext_ctor label isTemporary now (counts_of s)
      in Some \<lparr>counts_of = snd r, live = fst r # live s, clock = now\<rparr>)"
| "step (Leave i dt) s =
     (if i < length (live s)
      then (let now = clock s + int dt
            in case TraceContext_dtor (live s ! i) now (counts_of s) of
                 None \<Rightarrow> None
               | Some counts' \<Rightarrow>
                   Some \<lparr>counts_of = counts',
                         live = take i (live s) @ drop (Suc i) (live s), clock = now\<rparr>)
      else None)"

text \<open>
  A sequence of operations, stopping at the first one that is not defined; the states
  that a thread can be in are those that operations reach from the empty map.
\<close>

fun run :: "op list \<Rightarrow> thread_state \<Rightarrow> thread_state option" where
  "run [] s = Some s"
| "run (x # xs) s = (case step x s of None \<Rightarrow> None | Some s' \<Rightarrow> run xs s')"

inductive reachable :: "thread_state \<Rightarrow> bool" where
  reachable_init: "reachable (thread_init t0)"
| reachable_step: "reachable s \<Longrightarrow> step x s = Some s' \<Longrightarrow> reachable s'"

section \<open>Notions used in the statements\<close>

text \<open>
  The effect of one pass of the inner loop of \<open>status()\<close> on the entry \<open>sofar\<close>.
\<close>

definition merge_data :: "TraceData \<Rightarrow> TraceData \<Rightarrow> TraceData" where
  "merge_data sofar v =
     sofar\<lparr>startTime := (if numEnters sofar = 0 then startTime v
                          else if numEnters v > 0 then min (startTime sofar) (startTime v)
                          else startTime sofar),
           numThreads := numThreads sofar + numThreads v,
           numEnters := numEnters sofar + numEnters v,
           totalMs := totalMs sofar + totalMs v,
           maxMs := max (maxMs sofar) (maxMs v)\<rparr>"

text \<open>
  The entries that the registered threads hold for a label, one for every map that
  contains the label, in the order of the registry.
\<close>

definition entries :: "counts list \<Rightarrow> string \<Rightarrow> TraceData list" where
  "entries registry label = List.map_filter (\<lambda>counts. map_of counts label) registry"


text \<open>
  The invariant of a thread's state: keys are unique; the \<open>numThreads\<close> of an entry is
  the number of live instances with its label, it is at most \<open>numEnters\<close>, which is at
  least 1, and the totals are not negative; every live instance was entered no later
  than the last clock reading and its label has an entry.
\<close>

definition thread_inv :: "thread_state \<Rightarrow> bool" where
  "thread_inv s \<longleftrightarrow>
     distinct (map fst (counts_of s))
     \<and> (\<forall>k d. map_of (counts_of s) k = Some d \<longrightarrow>
           numThreads d = int (length (filter (\<lambda>c. ctx_label c = k) (live s)))
           \<and> numThreads d \<le> numEnters d \<and> 1 \<le> numEnters d
           \<and> 0 \<le> totalMs d \<and> 0 \<le> maxMs d)
     \<and> (\<forall>c \<in> set (live s). ctx_enterTime c \<le> clock s
           \<and> map_of (counts_of s) (ctx_label c) \<noteq> None)"

section \<open>Properties of the constructor and the destructor\<close>

lemma map_of_delete_same: "map_of (AList.delete k al) k = None"
  by (simp add: delete_conv')

lemma map_of_delete_other: "k' \<noteq> k \<Longrightarrow> map_of (AList.delete k al) k' = map_of al k'"
  by (simp add: delete_conv')

lemma delete_absent: "map_of al k = None \<Longrightarrow> AList.delete k al = al"
  by (rule delete_id) (simp add: map_of_eq_None_iff)

lemma ctor_in_two_parts:
  "snd (TraceContext_ctor label isTemporary now counts)
     = TraceContext_ctor_from_49 label now (TraceContext_ctor_upto_48 label counts)"
  by (simp add: TraceContext_ctor_def TraceContext_ctor_upto_48_def
      TraceContext_ctor_from_49_def Let_def subscript_def update_conv')

section \<open>The invariant of a thread\<close>

lemma duration_cast_ms_nonneg: "0 \<le> d \<Longrightarrow> 0 \<le> duration_cast_ms d"
  by (simp add: duration_cast_ms_def sgn_if pos_imp_zdiv_nonneg_iff)

lemma filter_remove_nth:
  "i < length xs \<Longrightarrow>
   int (length (filter P (take i xs @ drop (Suc i) xs)))
     = int (length (filter P xs)) - (if P (xs ! i) then 1 else 0)"
proof -
  assume "i < length xs"
  then have "xs = take i xs @ xs ! i # drop (Suc i) xs"
    by (rule id_take_nth_drop)
  then have "filter P xs = filter P (take i xs) @ filter P (xs ! i # drop (Suc i) xs)"
    by (metis filter_append)
  then show ?thesis by simp
qed

lemma thread_inv_entry:
  "thread_inv s \<Longrightarrow> map_of (counts_of s) k = Some d \<Longrightarrow>
     numThreads d = int (length (filter (\<lambda>c. ctx_label c = k) (live s)))
     \<and> numThreads d \<le> numEnters d \<and> 1 \<le> numEnters d
     \<and> 0 \<le> totalMs d \<and> 0 \<le> maxMs d"
  unfolding thread_inv_def by blast

lemma thread_inv_live:
  "thread_inv s \<Longrightarrow> c \<in> set (live s) \<Longrightarrow>
     ctx_enterTime c \<le> clock s \<and> map_of (counts_of s) (ctx_label c) \<noteq> None"
  unfolding thread_inv_def by blast

lemma thread_inv_distinct: "thread_inv s \<Longrightarrow> distinct (map fst (counts_of s))"
  unfolding thread_inv_def by blast

lemma absent_no_live:
  "thread_inv s \<Longrightarrow> map_of (counts_of s) k = None \<Longrightarrow> filter (\<lambda>c. ctx_label c = k) (live s) = []"
  by (auto simp: thread_inv_def filter_empty_conv)

lemma thread_inv_init: "thread_inv (thread_init t0)"
  by (simp add: thread_inv_def thread_init_def)

lemma thread_inv_Enter:
  assumes inv: "thread_inv s" and st: "step (Enter label isTemporary dt) s = Some s'"
  shows "thread_inv s'"
proof -
  define data where "data = subscript (counts_of s) label"
  define new where "new = (if numThreads data + 1 = 1
      then data\<lparr>numThreads := numThreads data + 1, startTime := clock s + int dt,
                 numEnters := numEnters data + 1\<rparr>
      else data\<lparr>numThreads := numThreads data + 1, numEnters := numEnters data + 1\<rparr>)"
  define c where "c = \<lparr>ctx_label = label, ctx_enterTime = clock s + int dt,
      ctx_isTemporary = isTemporary\<rparr>"
  have s': "s' = \<lparr>counts_of = AList.update label new (counts_of s), live = c # live s,
      clock = clock s + int dt\<rparr>"
    using st [symmetric] by (simp add: TraceContext_ctor_def Let_def new_def data_def c_def)
  have old: "numThreads data = int (length (filter (\<lambda>c. ctx_label c = label) (live s)))
      \<and> numThreads data \<le> numEnters data \<and> 0 \<le> numEnters data
      \<and> 0 \<le> totalMs data \<and> 0 \<le> maxMs data"
  proof (cases "map_of (counts_of s) label")
    case None
    with absent_no_live [OF inv None] show ?thesis
      by (simp add: data_def subscript_def TraceData_default_def)
  next
    case (Some d)
    with thread_inv_entry [OF inv Some] show ?thesis
      by (simp add: data_def subscript_def)
  qed
  have new: "numThreads new = int (length (filter (\<lambda>c. ctx_label c = label) (c # live s)))
      \<and> numThreads new \<le> numEnters new \<and> 1 \<le> numEnters new
      \<and> 0 \<le> totalMs new \<and> 0 \<le> maxMs new"
    using old by (simp add: new_def c_def)
  have "distinct (map fst (counts_of s'))"
    using inv by (simp add: s' thread_inv_def distinct_update)
  moreover have "\<forall>k d. map_of (counts_of s') k = Some d \<longrightarrow>
           numThreads d = int (length (filter (\<lambda>c. ctx_label c = k) (live s')))
           \<and> numThreads d \<le> numEnters d \<and> 1 \<le> numEnters d
           \<and> 0 \<le> totalMs d \<and> 0 \<le> maxMs d"
  proof (intro allI impI)
    fix k d assume kd: "map_of (counts_of s') k = Some d"
    show "numThreads d = int (length (filter (\<lambda>c. ctx_label c = k) (live s')))
           \<and> numThreads d \<le> numEnters d \<and> 1 \<le> numEnters d
           \<and> 0 \<le> totalMs d \<and> 0 \<le> maxMs d"
    proof (cases "k = label")
      case True
      with kd have "d = new" by (simp add: s' update_conv')
      with new True show ?thesis by (simp add: s')
    next
      case False
      with kd have "map_of (counts_of s) k = Some d" by (simp add: s' update_conv')
      then have "map_of (counts_of s) k = Some d" .
      from thread_inv_entry [OF inv this] False show ?thesis
        by (simp add: s' c_def)
    qed
  qed
  moreover have "\<forall>c \<in> set (live s'). ctx_enterTime c \<le> clock s'
           \<and> map_of (counts_of s') (ctx_label c) \<noteq> None"
    using inv by (auto simp: thread_inv_def s' c_def update_conv' simp del: map_of_eq_Some_iff)
  ultimately show ?thesis unfolding thread_inv_def by blast
qed

lemma dtor_erase:
  "map_of counts (ctx_label c) = Some it \<Longrightarrow> numThreads it - 1 = 0 \<and> ctx_isTemporary c \<Longrightarrow>
   TraceContext_dtor c now counts = Some (AList.delete (ctx_label c) counts)"
  by (simp add: TraceContext_dtor_def Let_def)

lemma dtor_keep:
  "map_of counts (ctx_label c) = Some it \<Longrightarrow> \<not> (numThreads it - 1 = 0 \<and> ctx_isTemporary c) \<Longrightarrow>
   TraceContext_dtor c now counts =
     Some (AList.update (ctx_label c)
       (it\<lparr>numThreads := numThreads it - 1,
            totalMs := totalMs it + duration_cast_ms (now - ctx_enterTime c),
            maxMs := max (maxMs it) (duration_cast_ms (now - ctx_enterTime c))\<rparr>) counts)"
  by (auto simp add: TraceContext_dtor_def Let_def)

lemma thread_inv_Leave:
  assumes inv: "thread_inv s" and st: "step (Leave i dt) s = Some s'"
  shows "thread_inv s'"
proof -
  from st have i: "i < length (live s)" by (simp split: if_splits)
  define c where "c = live s ! i"
  define L where "L = ctx_label c"
  have cin: "c \<in> set (live s)" using i by (simp add: c_def)
  then obtain it where it: "map_of (counts_of s) L = Some it"
    using thread_inv_live [OF inv cin] by (auto simp: L_def simp del: map_of_eq_Some_iff)
  have ce: "ctx_enterTime c \<le> clock s" using thread_inv_live [OF inv cin] by simp
  define ms where "ms = duration_cast_ms (clock s + int dt - ctx_enterTime c)"
  have ms: "0 \<le> ms" unfolding ms_def using ce by (intro duration_cast_ms_nonneg) simp
  define live' where "live' = take i (live s) @ drop (Suc i) (live s)"
  have cnt: "\<And>k. int (length (filter (\<lambda>c. ctx_label c = k) live'))
      = int (length (filter (\<lambda>c. ctx_label c = k) (live s))) - (if L = k then 1 else 0)"
    unfolding live'_def L_def c_def by (rule filter_remove_nth [OF i])
  have sub: "set live' \<subseteq> set (live s)"
    unfolding live'_def by (auto dest: in_set_takeD in_set_dropD)
  have itp: "numThreads it = int (length (filter (\<lambda>c. ctx_label c = L) (live s)))
           \<and> numThreads it \<le> numEnters it \<and> 1 \<le> numEnters it
           \<and> 0 \<le> totalMs it \<and> 0 \<le> maxMs it"
    using thread_inv_entry [OF inv it] .
  have pos: "1 \<le> numThreads it"
  proof -
    have "c \<in> set (filter (\<lambda>c. ctx_label c = L) (live s))" using cin by (simp add: L_def)
    then have "0 < length (filter (\<lambda>c. ctx_label c = L) (live s))"
      by (rule length_pos_if_in_set)
    then have "1 \<le> int (length (filter (\<lambda>c. ctx_label c = L) (live s)))"
      by linarith
    with itp show ?thesis by presburger
  qed
  show ?thesis
  proof (cases "numThreads it - 1 = 0 \<and> ctx_isTemporary c")
    case True
    then have s': "s' = \<lparr>counts_of = AList.delete L (counts_of s), live = live',
        clock = clock s + int dt\<rparr>"
      using st [symmetric] i dtor_erase [of "counts_of s" c it "clock s + int dt"] it
      by (simp add: Let_def c_def [symmetric] L_def [symmetric] live'_def)
    have none: "filter (\<lambda>c. ctx_label c = L) live' = []"
      using cnt [of L] itp True by simp
    have "distinct (map fst (counts_of s'))"
      using inv by (simp add: s' thread_inv_def distinct_delete)
    moreover have "\<forall>k d. map_of (counts_of s') k = Some d \<longrightarrow>
           numThreads d = int (length (filter (\<lambda>c. ctx_label c = k) (live s')))
           \<and> numThreads d \<le> numEnters d \<and> 1 \<le> numEnters d
           \<and> 0 \<le> totalMs d \<and> 0 \<le> maxMs d"
    proof (intro allI impI)
      fix k d assume kd: "map_of (counts_of s') k = Some d"
      then have kL: "k \<noteq> L" and "map_of (counts_of s) k = Some d"
        by (auto simp: s' delete_conv' split: if_splits)
      from thread_inv_entry [OF inv this(2)] kL cnt [of k]
      show "numThreads d = int (length (filter (\<lambda>c. ctx_label c = k) (live s')))
           \<and> numThreads d \<le> numEnters d \<and> 1 \<le> numEnters d
           \<and> 0 \<le> totalMs d \<and> 0 \<le> maxMs d"
        by (simp add: s')
    qed
    moreover have "\<forall>c \<in> set (live s'). ctx_enterTime c \<le> clock s'
           \<and> map_of (counts_of s') (ctx_label c) \<noteq> None"
    proof
      fix x assume x: "x \<in> set (live s')"
      then have xl: "x \<in> set (live s)" using sub by (auto simp: s')
      have "ctx_label x \<noteq> L"
      proof
        assume "ctx_label x = L"
        with x have "x \<in> set (filter (\<lambda>c. ctx_label c = L) live')" by (simp add: s')
        with none show False by simp
      qed
      with inv xl show "ctx_enterTime x \<le> clock s' \<and> map_of (counts_of s') (ctx_label x) \<noteq> None"
        by (auto simp: s' thread_inv_def delete_conv' simp del: map_of_eq_Some_iff)
    qed
    ultimately show ?thesis unfolding thread_inv_def by blast
  next
    case False
    define new where "new = it\<lparr>numThreads := numThreads it - 1, totalMs := totalMs it + ms,
        maxMs := max (maxMs it) ms\<rparr>"
    from False have s': "s' = \<lparr>counts_of = AList.update L new (counts_of s), live = live',
        clock = clock s + int dt\<rparr>"
      using st [symmetric] i dtor_keep [of "counts_of s" c it "clock s + int dt"] it
      by (simp add: Let_def c_def [symmetric] L_def [symmetric] live'_def new_def ms_def)
    have "distinct (map fst (counts_of s'))"
      using inv by (simp add: s' thread_inv_def distinct_update)
    moreover have "\<forall>k d. map_of (counts_of s') k = Some d \<longrightarrow>
           numThreads d = int (length (filter (\<lambda>c. ctx_label c = k) (live s')))
           \<and> numThreads d \<le> numEnters d \<and> 1 \<le> numEnters d
           \<and> 0 \<le> totalMs d \<and> 0 \<le> maxMs d"
    proof (intro allI impI)
      fix k d assume kd: "map_of (counts_of s') k = Some d"
      show "numThreads d = int (length (filter (\<lambda>c. ctx_label c = k) (live s')))
           \<and> numThreads d \<le> numEnters d \<and> 1 \<le> numEnters d
           \<and> 0 \<le> totalMs d \<and> 0 \<le> maxMs d"
      proof (cases "k = L")
        case True
        with kd have "d = new" by (simp add: s' update_conv')
        with itp ms cnt [of L] True show ?thesis by (simp add: s' new_def)
      next
        case False
        with kd have "map_of (counts_of s) k = Some d" by (simp add: s' update_conv')
        then have "map_of (counts_of s) k = Some d" .
        from thread_inv_entry [OF inv this] False cnt [of k] show ?thesis
          by (simp add: s')
      qed
    qed
    moreover have "\<forall>c \<in> set (live s'). ctx_enterTime c \<le> clock s'
           \<and> map_of (counts_of s') (ctx_label c) \<noteq> None"
    proof
      fix x assume "x \<in> set (live s')"
      then have "x \<in> set (live s)" using sub by (auto simp: s')
      from thread_inv_live [OF inv this]
      show "ctx_enterTime x \<le> clock s' \<and> map_of (counts_of s') (ctx_label x) \<noteq> None"
        by (auto simp: s' update_conv')
    qed
    ultimately show ?thesis unfolding thread_inv_def by blast
  qed
qed

lemma thread_inv_step: "thread_inv s \<Longrightarrow> step x s = Some s' \<Longrightarrow> thread_inv s'"
  by (cases x) (auto intro: thread_inv_Enter thread_inv_Leave)

lemma reachable_inv: "reachable s \<Longrightarrow> thread_inv s"
  by (induction rule: reachable.induct) (auto intro: thread_inv_init thread_inv_step)

section \<open>The snapshot as a fold over the entries of a label\<close>

lemma merge_entry_eq:
  "merge_entry (k, v) t = AList.update k (merge_data (subscript t k) v) t"
  by (simp add: merge_entry_def merge_data_def Let_def)

lemma subscript_update:
  "subscript (AList.update k d t) L = (if L = k then d else subscript t L)"
  by (simp add: subscript_def update_conv')

lemma subscript_fold_merge:
  "distinct (map fst m) \<Longrightarrow>
   subscript (fold merge_entry m t) L
     = (case map_of m L of None \<Rightarrow> subscript t L | Some v \<Rightarrow> merge_data (subscript t L) v)"
proof (induction m arbitrary: t)
  case Nil
  then show ?case by simp
next
  case (Cons kv m)
  obtain k v where kv: "kv = (k, v)" by (cases kv)
  from Cons.prems have d: "distinct (map fst m)" and nk: "k \<notin> fst ` set m"
    by (simp_all add: kv)
  from nk have none: "map_of m k = None" by (simp add: map_of_eq_None_iff)
  show ?case
    using Cons.IH [OF d, of "merge_entry (k, v) t"] none
    by (auto simp: kv merge_entry_eq subscript_update split: option.splits)
qed

lemma keys_fold_merge:
  "fst ` set (fold merge_entry m t) = fst ` set t \<union> fst ` set m"
proof (induction m arbitrary: t)
  case Nil
  then show ?case by simp
next
  case (Cons kv m)
  obtain k v where kv: "kv = (k, v)" by (cases kv)
  show ?case
    using Cons.IH [of "merge_entry (k, v) t"]
    by (auto simp: kv merge_entry_eq dom_update)
qed

lemma distinct_fold_merge:
  "distinct (map fst t) \<Longrightarrow> distinct (map fst (fold merge_entry m t))"
proof (induction m arbitrary: t)
  case Nil
  then show ?case by simp
next
  case (Cons kv m)
  obtain k v where kv: "kv = (k, v)" by (cases kv)
  show ?case
    using Cons.IH [of "merge_entry (k, v) t"] Cons.prems
    by (simp add: kv merge_entry_eq distinct_update)
qed

lemma entries_Nil: "entries [] L = []"
  by (simp add: entries_def map_filter_simps)

lemma entries_Cons:
  "entries (m # reg) L = (case map_of m L of None \<Rightarrow> entries reg L | Some v \<Rightarrow> v # entries reg L)"
  by (simp add: entries_def map_filter_simps split: option.splits)

lemma subscript_fold_registry:
  "\<forall>m \<in> set reg. distinct (map fst m) \<Longrightarrow>
   subscript (fold (\<lambda>counts t. fold merge_entry counts t) reg t) L
     = foldl merge_data (subscript t L) (entries reg L)"
proof (induction reg arbitrary: t)
  case Nil
  then show ?case by (simp add: entries_Nil)
next
  case (Cons m reg)
  then show ?case
    by (simp add: entries_Cons subscript_fold_merge split: option.splits)
qed

lemma keys_fold_registry:
  "fst ` set (fold (\<lambda>counts t. fold merge_entry counts t) reg t)
     = fst ` set t \<union> (\<Union>m \<in> set reg. fst ` set m)"
proof (induction reg arbitrary: t)
  case Nil
  then show ?case by simp
next
  case (Cons m reg)
  then show ?case by (simp add: keys_fold_merge Un_assoc)
qed

lemma distinct_fold_registry:
  "distinct (map fst t) \<Longrightarrow>
   distinct (map fst (fold (\<lambda>counts t. fold merge_entry counts t) reg t))"
  by (induction reg arbitrary: t) (simp_all add: distinct_fold_merge)

lemma distinct_status: "distinct (map fst (status reg))"
  by (simp add: status_def distinct_fold_registry)

lemma keys_status: "fst ` set (status reg) = (\<Union>m \<in> set reg. fst ` set m)"
  by (simp add: status_def keys_fold_registry)

lemma subscript_status:
  "\<forall>m \<in> set reg. distinct (map fst m) \<Longrightarrow>
   subscript (status reg) L = foldl merge_data TraceData_default (entries reg L)"
  by (simp add: status_def subscript_fold_registry) (simp add: subscript_def)

lemma entries_nonempty:
  "entries reg L \<noteq> [] \<longleftrightarrow> (\<exists>m \<in> set reg. map_of m L \<noteq> None)"
  by (induction reg) (auto simp: entries_Nil entries_Cons split: option.splits)

lemma map_of_status:
  assumes "\<forall>m \<in> set reg. distinct (map fst m)" and "entries reg L \<noteq> []"
  shows "map_of (status reg) L = Some (foldl merge_data TraceData_default (entries reg L))"
proof -
  from assms(2) obtain m where "m \<in> set reg" "map_of m L \<noteq> None"
    by (auto simp: entries_nonempty)
  then have "L \<in> fst ` set (status reg)"
    unfolding keys_status by (auto simp: map_of_eq_None_iff)
  then obtain d where d: "map_of (status reg) L = Some d"
    by (metis map_of_eq_None_iff not_Some_eq)
  then have "subscript (status reg) L = d" by (simp add: subscript_def)
  with subscript_status [OF assms(1), of L] d show ?thesis by simp
qed

lemma Max_insert_max:
  fixes a :: "'a::linorder"
  shows "finite S \<Longrightarrow> Max (insert (max a b) S) = max a (Max (insert b S))"
  by (cases "S = {}") (simp_all add: max.assoc)

lemma Min_insert_min:
  fixes a :: "'a::linorder"
  shows "finite S \<Longrightarrow> Min (insert (min a b) S) = min a (Min (insert b S))"
  by (cases "S = {}") (simp_all add: min.assoc)

lemma foldl_merge_sums:
  "numThreads (foldl merge_data d es) = numThreads d + sum_list (map numThreads es)"
  "numEnters (foldl merge_data d es) = numEnters d + sum_list (map numEnters es)"
  "totalMs (foldl merge_data d es) = totalMs d + sum_list (map totalMs es)"
  by (induction es arbitrary: d) (simp_all add: merge_data_def)

lemma foldl_merge_maxMs:
  "maxMs (foldl merge_data d es) = Max (set (maxMs d # map maxMs es))"
proof (induction es arbitrary: d)
  case Nil
  then show ?case by simp
next
  case (Cons e es)
  have "maxMs (merge_data d e) = max (maxMs d) (maxMs e)" by (simp add: merge_data_def)
  then show ?case
    using Cons.IH [of "merge_data d e"] by (simp add: Max_insert_max)
qed

lemma foldl_merge_startTime_pos:
  "0 < numEnters d \<Longrightarrow> \<forall>e \<in> set es. 0 \<le> numEnters e \<Longrightarrow>
   startTime (foldl merge_data d es)
     = Min (set (startTime d # map startTime (filter (\<lambda>v. 0 < numEnters v) es)))"
proof (induction es arbitrary: d)
  case Nil
  then show ?case by simp
next
  case (Cons e es)
  from Cons.prems have pos: "0 < numEnters (merge_data d e)" and rest: "\<forall>e \<in> set es. 0 \<le> numEnters e"
    by (simp_all add: merge_data_def)
  have st: "startTime (merge_data d e)
      = (if 0 < numEnters e then min (startTime d) (startTime e) else startTime d)"
    using Cons.prems by (simp add: merge_data_def)
  show ?case
    using Cons.IH [OF pos rest] st by (simp add: Min_insert_min)
qed

lemma foldl_merge_startTime_zero:
  "numEnters d = 0 \<Longrightarrow> \<forall>e \<in> set es. 0 \<le> numEnters e \<Longrightarrow>
   filter (\<lambda>v. 0 < numEnters v) es \<noteq> [] \<Longrightarrow>
   startTime (foldl merge_data d es)
     = Min (set (map startTime (filter (\<lambda>v. 0 < numEnters v) es)))"
proof (induction es arbitrary: d)
  case Nil
  then show ?case by simp
next
  case (Cons e es)
  from Cons.prems have rest: "\<forall>e \<in> set es. 0 \<le> numEnters e" and e: "0 \<le> numEnters e" by simp_all
  have st: "startTime (merge_data d e) = startTime e" and ne: "numEnters (merge_data d e) = numEnters e"
    using Cons.prems by (simp_all add: merge_data_def)
  show ?case
  proof (cases "0 < numEnters e")
    case True
    then have "0 < numEnters (merge_data d e)" by (simp add: ne)
    from foldl_merge_startTime_pos [OF this rest] True st show ?thesis by simp
  next
    case False
    with e have z: "numEnters (merge_data d e) = 0" by (simp add: ne)
    from False Cons.prems have "filter (\<lambda>v. 0 < numEnters v) es \<noteq> []" by simp
    from Cons.IH [OF z rest this] False show ?thesis by simp
  qed
qed

lemma foldl_merge_startTime_none:
  "numEnters d = 0 \<Longrightarrow> \<forall>e \<in> set es. numEnters e = 0 \<Longrightarrow> es \<noteq> [] \<Longrightarrow>
   startTime (foldl merge_data d es) = startTime (last es)"
proof (induction es arbitrary: d)
  case Nil
  then show ?case by simp
next
  case (Cons e es)
  have st: "startTime (merge_data d e) = startTime e" and ne: "numEnters (merge_data d e) = 0"
    using Cons.prems by (simp_all add: merge_data_def)
  show ?case
  proof (cases "es = []")
    case True
    with st show ?thesis by simp
  next
    case False
    from Cons.prems have "\<forall>e \<in> set es. numEnters e = 0" by simp
    from Cons.IH [OF ne this False] False show ?thesis by simp
  qed
qed

section \<open>Entries of a label across the registry\<close>

lemma entries_set: "set (entries reg L) = {v. \<exists>m \<in> set reg. map_of m L = Some v}"
  by (induction reg) (auto simp: entries_Nil entries_Cons split: option.splits)

lemma entries_two:
  "map_of mA L = Some a \<Longrightarrow> map_of mB L = Some b \<Longrightarrow> entries [mA, mB] L = [a, b]"
  by (simp add: entries_Cons entries_Nil)

section \<open>The report, and what the steps of a thread preserve\<close>

lemma statusLine_loop_Some:
  "\<forall>pair \<in> set snapshot. numThreads (snd pair) \<noteq> 0 \<longrightarrow> numEnters (snd pair) \<noteq> 0 \<Longrightarrow>
   statusLine_loop now snapshot out
     = Some (out @ concat (map (status_line_of now)
         (filter (\<lambda>pair. numThreads (snd pair) \<noteq> 0) snapshot)))"
  by (induction snapshot arbitrary: out) simp_all

lemma reachable_entry:
  assumes "reachable s" and "map_of (counts_of s) k = Some e"
  shows "0 \<le> numThreads e" and "numThreads e \<le> numEnters e" and "1 \<le> numEnters e"
    and "0 \<le> totalMs e" and "0 \<le> maxMs e"
  using thread_inv_entry [OF reachable_inv [OF assms(1)] assms(2)] by simp_all

lemma status_entry_inv:
  assumes r: "\<forall>s \<in> set threads. reachable s"
    and p: "pair \<in> set (status (map counts_of threads))"
  shows "0 \<le> numThreads (snd pair) \<and> numThreads (snd pair) \<le> numEnters (snd pair)"
proof -
  let ?reg = "map counts_of threads"
  obtain k d where pair: "pair = (k, d)" by (cases pair)
  have dist: "\<forall>m \<in> set ?reg. distinct (map fst m)"
    using r by (auto intro: thread_inv_distinct reachable_inv)
  have "map_of (status ?reg) k = Some d"
    using p distinct_status [of ?reg] by (simp add: pair)
  then have "subscript (status ?reg) k = d" by (simp add: subscript_def)
  then have d: "d = foldl merge_data TraceData_default (entries ?reg k)"
    using subscript_status [OF dist, of k] by simp
  have e: "0 \<le> numThreads e \<and> numThreads e \<le> numEnters e" if "e \<in> set (entries ?reg k)" for e
  proof -
    from that obtain s where "s \<in> set threads" "map_of (counts_of s) k = Some e"
      by (auto simp: entries_set)
    with r reachable_entry [of s k e] show ?thesis by blast
  qed
  have "0 \<le> sum_list (map numThreads (entries ?reg k))"
    by (rule sum_list_nonneg) (use e in auto)
  moreover have "sum_list (map numThreads (entries ?reg k)) \<le> sum_list (map numEnters (entries ?reg k))"
    by (rule sum_list_mono) (use e in auto)
  ultimately show ?thesis
    by (simp add: pair d foldl_merge_sums TraceData_default_def)
qed

text \<open>
  Between whole operations of the threads the divisor is not zero: every entry of the
  snapshot with \<open>numThreads > 0\<close> has \<open>numEnters \<ge> numThreads \<ge> 1\<close>, and the report
  is defined.
\<close>

lemma statusLine_defined_between_operations:
  assumes "\<forall>s \<in> set threads. reachable s"
  shows "(\<forall>pair \<in> set (status (map counts_of threads)).
            0 < numThreads (snd pair) \<longrightarrow>
              numThreads (snd pair) \<le> numEnters (snd pair) \<and> 1 \<le> numThreads (snd pair)
              \<and> numEnters (snd pair) \<noteq> 0)
         \<and> statusLine now (map counts_of threads) \<noteq> None"
proof -
  have a: "\<forall>pair \<in> set (status (map counts_of threads)).
            0 < numThreads (snd pair) \<longrightarrow>
              numThreads (snd pair) \<le> numEnters (snd pair) \<and> 1 \<le> numThreads (snd pair)
              \<and> numEnters (snd pair) \<noteq> 0"
    using status_entry_inv [OF assms] by fastforce
  have "\<forall>pair \<in> set (status (map counts_of threads)).
          numThreads (snd pair) \<noteq> 0 \<longrightarrow> numEnters (snd pair) \<noteq> 0"
    using status_entry_inv [OF assms] by fastforce
  from statusLine_loop_Some [OF this] a show ?thesis
    by (simp add: statusLine_def)
qed



lemma run_reachable: "reachable s \<Longrightarrow> run xs s = Some s' \<Longrightarrow> reachable s'"
  by (induction xs arbitrary: s) (auto split: option.splits intro: reachable_step)

lemma leave_defined:
  assumes "reachable s" and "i < length (live s)"
  shows "step (Leave i dt) s \<noteq> None"
proof -
  have "live s ! i \<in> set (live s)" using assms(2) by simp
  from thread_inv_live [OF reachable_inv [OF assms(1)] this]
  show ?thesis using assms(2)
    by (auto simp: TraceContext_dtor_def Let_def split: option.splits)
qed

lemmas eval_defs = thread_init_def TraceContext_ctor_def TraceContext_dtor_def subscript_def
  TraceData_default_def Let_def duration_cast_ms_def

section \<open>Verified properties\<close>

text \<open>
  C1. Constructing a \<open>TraceContext\<close> leaves in the thread's map an entry for its
  label, built from the entry that was there (or from a fresh all-zero one when there
  was none): \<open>numThreads\<close> and \<open>numEnters\<close> are one larger, \<open>startTime\<close> is the
  recorded enter time exactly when \<open>numThreads\<close> went from 0 to 1 and is unchanged
  otherwise, \<open>totalMs\<close> and \<open>maxMs\<close> are unchanged; the entries of all other labels
  are unchanged, and the instance records the label, the enter time and the flag.
\<close>

theorem ctor_updates_entry:
  "(let old = subscript counts label;
        r = TraceContext_ctor label isTemporary now counts
    in fst r = \<lparr>ctx_label = label, ctx_enterTime = now, ctx_isTemporary = isTemporary\<rparr>
       \<and> (\<exists>new. map_of (snd r) label = Some new
             \<and> numThreads new = numThreads old + 1
             \<and> numEnters new = numEnters old + 1
             \<and> startTime new = (if numThreads old = 0 then now else startTime old)
             \<and> totalMs new = totalMs old
             \<and> maxMs new = maxMs old)
       \<and> (\<forall>k. k \<noteq> label \<longrightarrow> map_of (snd r) k = map_of counts k))"
  by (simp add: TraceContext_ctor_def Let_def update_conv')

theorem ctor_updates_entry_witness:
  "map_of (snd (TraceContext_ctor ''b'' False 7
       [(''a'', \<lparr>numThreads = 1, numEnters = 3, totalMs = 20, maxMs = 15, startTime = 2\<rparr>)])) ''a''
     = Some \<lparr>numThreads = 1, numEnters = 3, totalMs = 20, maxMs = 15, startTime = 2\<rparr>
   \<and> map_of (snd (TraceContext_ctor ''b'' False 7
       [(''a'', \<lparr>numThreads = 1, numEnters = 3, totalMs = 20, maxMs = 15, startTime = 2\<rparr>)])) ''b''
     = Some \<lparr>numThreads = 1, numEnters = 1, totalMs = 0, maxMs = 0, startTime = 7\<rparr>"
  using ctor_updates_entry [where label = "''b''" and isTemporary = False and now = 7 and counts =
      "[(''a'', \<lparr>numThreads = 1, numEnters = 3, totalMs = 20, maxMs = 15, startTime = 2\<rparr>)]"]
  by (auto simp add: Let_def subscript_def TraceData_default_def)

text \<open>
  C2. Destructing a \<open>TraceContext\<close> whose label has the entry \<open>it\<close> in the thread's
  map: when \<open>numThreads\<close> was 1 (the decrement reaches 0) and the context is temporary,
  the result is the map with the entry erased and every other entry as it was, so
  \<open>totalMs\<close> and \<open>maxMs\<close> are not updated; otherwise the entry has \<open>numThreads\<close> one
  smaller, \<open>totalMs\<close> larger by the elapsed milliseconds between the enter time and
  now, \<open>maxMs\<close> the maximum of its old value and the elapsed milliseconds,
  \<open>numEnters\<close> and \<open>startTime\<close> unchanged, and every other entry is as it was.
\<close>

theorem dtor_updates_entry:
  assumes "map_of counts (ctx_label this) = Some it"
  shows "\<exists>counts'. TraceContext_dtor this now counts = Some counts'
           \<and> (\<forall>k. k \<noteq> ctx_label this \<longrightarrow> map_of counts' k = map_of counts k)
           \<and> (if numThreads it - 1 = 0 \<and> ctx_isTemporary this
              then counts' = AList.delete (ctx_label this) counts
                   \<and> map_of counts' (ctx_label this) = None
              else (\<exists>data. map_of counts' (ctx_label this) = Some data
                     \<and> numThreads data = numThreads it - 1
                     \<and> totalMs data = totalMs it + duration_cast_ms (now - ctx_enterTime this)
                     \<and> maxMs data = max (maxMs it) (duration_cast_ms (now - ctx_enterTime this))
                     \<and> numEnters data = numEnters it
                     \<and> startTime data = startTime it))"
  using assms
  by (simp add: TraceContext_dtor_def Let_def update_conv' map_of_delete_same
      map_of_delete_other)

theorem dtor_updates_entry_witness:
  "map_of [(''a'', \<lparr>numThreads = 1, numEnters = 3, totalMs = 20, maxMs = 15, startTime = 2\<rparr>),
           (''b'', \<lparr>numThreads = 2, numEnters = 2, totalMs = 0, maxMs = 0, startTime = 9\<rparr>)] ''a''
     = Some \<lparr>numThreads = 1, numEnters = 3, totalMs = 20, maxMs = 15, startTime = 2\<rparr>
   \<and> TraceContext_dtor \<lparr>ctx_label = ''a'', ctx_enterTime = 1000000, ctx_isTemporary = False\<rparr>
       51000000
       [(''a'', \<lparr>numThreads = 1, numEnters = 3, totalMs = 20, maxMs = 15, startTime = 2\<rparr>),
        (''b'', \<lparr>numThreads = 2, numEnters = 2, totalMs = 0, maxMs = 0, startTime = 9\<rparr>)]
     = Some [(''a'', \<lparr>numThreads = 0, numEnters = 3, totalMs = 70, maxMs = 50, startTime = 2\<rparr>),
             (''b'', \<lparr>numThreads = 2, numEnters = 2, totalMs = 0, maxMs = 0, startTime = 9\<rparr>)]"
  using dtor_updates_entry [where now = 51000000 and counts =
      "[(''a'', \<lparr>numThreads = 1, numEnters = 3, totalMs = 20, maxMs = 15, startTime = 2\<rparr>),
        (''b'', \<lparr>numThreads = 2, numEnters = 2, totalMs = 0, maxMs = 0, startTime = 9\<rparr>)]"
      and this = "\<lparr>ctx_label = ''a'', ctx_enterTime = 1000000, ctx_isTemporary = False\<rparr>"
      and it = "\<lparr>numThreads = 1, numEnters = 3, totalMs = 20, maxMs = 15, startTime = 2\<rparr>"]
  by (simp add: TraceContext_dtor_def Let_def duration_cast_ms_def)

text \<open>
  C3. For a registry of maps with unique keys and a label that at least one of them
  contains, \<open>status()\<close> has an entry for the label whose \<open>numThreads\<close>, \<open>numEnters\<close>
  and \<open>totalMs\<close> are the sums of these fields over the per-thread entries of the
  label, and whose \<open>maxMs\<close> is the maximum of 0 and the per-thread \<open>maxMs\<close> values,
  which is their maximum as none of them is negative. In particular, when the registry
  is the maps of two threads A and B that both hold the label, \<open>numEnters\<close> of the
  result is the sum of the two threads' \<open>numEnters\<close>.
\<close>

theorem status_sums:
  assumes "\<forall>counts \<in> set registry. distinct (map fst counts)"
    and "\<exists>counts \<in> set registry. map_of counts label \<noteq> None"
  shows "\<exists>d. map_of (status registry) label = Some d
           \<and> numThreads d = sum_list (map numThreads (entries registry label))
           \<and> numEnters d = sum_list (map numEnters (entries registry label))
           \<and> totalMs d = sum_list (map totalMs (entries registry label))
           \<and> maxMs d = Max (set (0 # map maxMs (entries registry label)))
           \<and> ((\<forall>e \<in> set (entries registry label). 0 \<le> maxMs e) \<longrightarrow>
                maxMs d = Max (set (map maxMs (entries registry label))))
           \<and> (\<forall>countsA countsB a b.
                registry = [countsA, countsB] \<and> map_of countsA label = Some a
                \<and> map_of countsB label = Some b \<longrightarrow> numEnters d = numEnters a + numEnters b)"
proof -
  let ?es = "entries registry label"
  let ?d = "foldl merge_data TraceData_default ?es"
  from assms(2) have ne: "?es \<noteq> []" by (simp add: entries_nonempty)
  have m: "map_of (status registry) label = Some ?d"
    by (rule map_of_status [OF assms(1) ne])
  have mx: "maxMs ?d = Max (set (0 # map maxMs ?es))"
    by (simp add: foldl_merge_maxMs TraceData_default_def)
  have "(\<forall>e \<in> set ?es. 0 \<le> maxMs e) \<longrightarrow> maxMs ?d = Max (set (map maxMs ?es))"
  proof
    assume nonneg: "\<forall>e \<in> set ?es. 0 \<le> maxMs e"
    from ne obtain e where e: "e \<in> set ?es" by (cases ?es) auto
    have "0 \<le> maxMs e" using nonneg e by blast
    also have "maxMs e \<le> Max (set (map maxMs ?es))" using e by simp
    finally have "max 0 (Max (set (map maxMs ?es))) = Max (set (map maxMs ?es))" by simp
    with ne mx show "maxMs ?d = Max (set (map maxMs ?es))" by simp
  qed
  moreover have "\<forall>countsA countsB a b.
      registry = [countsA, countsB] \<and> map_of countsA label = Some a
      \<and> map_of countsB label = Some b \<longrightarrow> numEnters ?d = numEnters a + numEnters b"
    by (auto simp: entries_two foldl_merge_sums TraceData_default_def merge_data_def)
  ultimately show ?thesis
    using m mx by (simp add: foldl_merge_sums TraceData_default_def)
qed

theorem status_sums_witness:
  "distinct (map fst [(''L'', \<lparr>numThreads = 1, numEnters = 3, totalMs = 100, maxMs = 60, startTime = 5\<rparr>)])
   \<and> distinct (map fst [(''M'', \<lparr>numThreads = 0, numEnters = 1, totalMs = 7, maxMs = 7, startTime = 1\<rparr>),
         (''L'', \<lparr>numThreads = 0, numEnters = 4, totalMs = 30, maxMs = 9, startTime = 3\<rparr>)])
   \<and> map_of [(''L'', \<lparr>numThreads = 1, numEnters = 3, totalMs = 100, maxMs = 60, startTime = 5\<rparr>)] ''L''
       = Some \<lparr>numThreads = 1, numEnters = 3, totalMs = 100, maxMs = 60, startTime = 5\<rparr>
   \<and> (\<exists>d. map_of (status [[(''L'', \<lparr>numThreads = 1, numEnters = 3, totalMs = 100, maxMs = 60, startTime = 5\<rparr>)], [(''M'', \<lparr>numThreads = 0, numEnters = 1, totalMs = 7, maxMs = 7, startTime = 1\<rparr>),
         (''L'', \<lparr>numThreads = 0, numEnters = 4, totalMs = 30, maxMs = 9, startTime = 3\<rparr>)]]) ''L'' = Some d
       \<and> numThreads d = 1 \<and> numEnters d = 3 + 4 \<and> totalMs d = 130 \<and> maxMs d = 60)"
proof -
  let ?A = "[(''L'', \<lparr>numThreads = 1, numEnters = 3, totalMs = 100, maxMs = 60, startTime = 5\<rparr>)]"
  let ?B = "[(''M'', \<lparr>numThreads = 0, numEnters = 1, totalMs = 7, maxMs = 7, startTime = 1\<rparr>),
         (''L'', \<lparr>numThreads = 0, numEnters = 4, totalMs = 30, maxMs = 9, startTime = 3\<rparr>)]"
  have h1: "\<forall>counts \<in> set [?A, ?B]. distinct (map fst counts)" by simp
  have h2: "\<exists>counts \<in> set [?A, ?B]. map_of counts ''L'' \<noteq> None" by simp
  have e: "entries [?A, ?B] ''L''
      = [\<lparr>numThreads = 1, numEnters = 3, totalMs = 100, maxMs = 60, startTime = 5\<rparr>,
         \<lparr>numThreads = 0, numEnters = 4, totalMs = 30, maxMs = 9, startTime = 3\<rparr>]"
    by (simp add: entries_def map_filter_simps)
  from status_sums [OF h1 h2] have "\<exists>d. map_of (status [?A, ?B]) ''L'' = Some d
       \<and> numThreads d = 1 \<and> numEnters d = 3 + 4 \<and> totalMs d = 130 \<and> maxMs d = 60"
    unfolding e by auto
  then show ?thesis by simp
qed

text \<open>
  C4. For a registry of maps with unique keys and no negative \<open>numEnters\<close>, and a
  label that at least one of the maps contains: when some thread's entry of the label
  has \<open>numEnters > 0\<close>, the \<open>startTime\<close> of the label in \<open>status()\<close> is the minimum
  of \<open>startTime\<close> over the per-thread entries of the label with \<open>numEnters > 0\<close>, so
  the entries whose \<open>numEnters\<close> is 0 have no part in it, wherever they come in the
  order of the merge. When no thread's entry has \<open>numEnters > 0\<close> there is no such
  minimum, and the \<open>startTime\<close> is the one of the last entry merged.
\<close>

theorem status_startTime:
  assumes "\<forall>counts \<in> set registry. distinct (map fst counts)"
    and "\<forall>counts \<in> set registry. \<forall>kv \<in> set counts. 0 \<le> numEnters (snd kv)"
    and "\<exists>counts \<in> set registry. map_of counts label \<noteq> None"
  shows "\<exists>d. map_of (status registry) label = Some d
           \<and> (if \<exists>v \<in> set (entries registry label). 0 < numEnters v
              then startTime d
                     = Min (set (map startTime
                         (filter (\<lambda>v. 0 < numEnters v) (entries registry label))))
              else startTime d = startTime (last (entries registry label)))"
proof -
  let ?es = "entries registry label"
  let ?d = "foldl merge_data TraceData_default ?es"
  from assms(3) have ne: "?es \<noteq> []" by (simp add: entries_nonempty)
  have m: "map_of (status registry) label = Some ?d"
    by (rule map_of_status [OF assms(1) ne])
  have nonneg: "\<forall>e \<in> set ?es. 0 \<le> numEnters e"
  proof
    fix e assume "e \<in> set ?es"
    then obtain c where c: "c \<in> set registry" "map_of c label = Some e"
      by (auto simp: entries_set)
    then have "(label, e) \<in> set c" by (simp add: map_of_SomeD)
    with assms(2) c(1) show "0 \<le> numEnters e" by force
  qed
  have z: "numEnters TraceData_default = 0" by (simp add: TraceData_default_def)
  show ?thesis
  proof (cases "\<exists>v \<in> set ?es. 0 < numEnters v")
    case True
    then have st: "filter (\<lambda>v. 0 < numEnters v) ?es \<noteq> []"
      by (auto simp: filter_empty_conv)
    from foldl_merge_startTime_zero [OF z nonneg st] m True show ?thesis by simp
  next
    case False
    with nonneg have "\<forall>e \<in> set ?es. numEnters e = 0" by force
    from foldl_merge_startTime_none [OF z this ne] m False show ?thesis by simp
  qed
qed

theorem status_startTime_witness:
  "distinct (map fst [(''L'', \<lparr>numThreads = 0, numEnters = 1, totalMs = 30, maxMs = 30, startTime = 4\<rparr>),
         (''M'', \<lparr>numThreads = 1, numEnters = 1, totalMs = 0, maxMs = 0, startTime = 2\<rparr>)])
   \<and> map_of [(''L'', \<lparr>numThreads = 0, numEnters = 0, totalMs = 0, maxMs = 0, startTime = 1\<rparr>)] ''L''
       = Some \<lparr>numThreads = 0, numEnters = 0, totalMs = 0, maxMs = 0, startTime = 1\<rparr>
   \<and> (\<exists>d. map_of (status [[(''L'', \<lparr>numThreads = 0, numEnters = 0, totalMs = 0, maxMs = 0, startTime = 1\<rparr>)],
        [(''L'', \<lparr>numThreads = 1, numEnters = 2, totalMs = 10, maxMs = 10, startTime = 9\<rparr>)],
        [(''L'', \<lparr>numThreads = 0, numEnters = 1, totalMs = 30, maxMs = 30, startTime = 4\<rparr>),
         (''M'', \<lparr>numThreads = 1, numEnters = 1, totalMs = 0, maxMs = 0, startTime = 2\<rparr>)]]) ''L'' = Some d \<and> startTime d = 4)
   \<and> (\<exists>d. map_of (status [[(''L'', \<lparr>numThreads = 1, numEnters = 2, totalMs = 10, maxMs = 10, startTime = 9\<rparr>)],
        [(''L'', \<lparr>numThreads = 0, numEnters = 0, totalMs = 0, maxMs = 0, startTime = 1\<rparr>)]]) ''L'' = Some d \<and> startTime d = 9)
   \<and> (\<exists>d. map_of (status [[(''L'', \<lparr>numThreads = 0, numEnters = 0, totalMs = 0, maxMs = 0, startTime = 1\<rparr>)]]) ''L'' = Some d \<and> startTime d = 1)"
proof -
  let ?A = "[(''L'', \<lparr>numThreads = 0, numEnters = 0, totalMs = 0, maxMs = 0, startTime = 1\<rparr>)]"
  let ?B = "[(''L'', \<lparr>numThreads = 1, numEnters = 2, totalMs = 10, maxMs = 10, startTime = 9\<rparr>)]"
  let ?C = "[(''L'', \<lparr>numThreads = 0, numEnters = 1, totalMs = 30, maxMs = 30, startTime = 4\<rparr>),
         (''M'', \<lparr>numThreads = 1, numEnters = 1, totalMs = 0, maxMs = 0, startTime = 2\<rparr>)]"
  have h1: "\<forall>counts \<in> set [?A, ?B, ?C]. distinct (map fst counts)" by simp
  have h2: "\<forall>counts \<in> set [?A, ?B, ?C]. \<forall>kv \<in> set counts. 0 \<le> numEnters (snd kv)" by simp
  have h3: "\<exists>counts \<in> set [?A, ?B, ?C]. map_of counts ''L'' \<noteq> None" by simp
  have e: "entries [?A, ?B, ?C] ''L''
      = [\<lparr>numThreads = 0, numEnters = 0, totalMs = 0, maxMs = 0, startTime = 1\<rparr>,
         \<lparr>numThreads = 1, numEnters = 2, totalMs = 10, maxMs = 10, startTime = 9\<rparr>,
         \<lparr>numThreads = 0, numEnters = 1, totalMs = 30, maxMs = 30, startTime = 4\<rparr>]"
    by (simp add: entries_def map_filter_simps)
  from status_startTime [OF h1 h2 h3]
  have a: "\<exists>d. map_of (status [?A, ?B, ?C]) ''L'' = Some d \<and> startTime d = 4"
    unfolding e by auto
  have k1: "\<forall>counts \<in> set [?B, ?A]. distinct (map fst counts)" by simp
  have k2: "\<forall>counts \<in> set [?B, ?A]. \<forall>kv \<in> set counts. 0 \<le> numEnters (snd kv)" by simp
  have k3: "\<exists>counts \<in> set [?B, ?A]. map_of counts ''L'' \<noteq> None" by simp
  have e': "entries [?B, ?A] ''L''
      = [\<lparr>numThreads = 1, numEnters = 2, totalMs = 10, maxMs = 10, startTime = 9\<rparr>,
         \<lparr>numThreads = 0, numEnters = 0, totalMs = 0, maxMs = 0, startTime = 1\<rparr>]"
    by (simp add: entries_def map_filter_simps)
  from status_startTime [OF k1 k2 k3]
  have b: "\<exists>d. map_of (status [?B, ?A]) ''L'' = Some d \<and> startTime d = 9"
    unfolding e' by auto
  have z1: "\<forall>counts \<in> set [?A]. distinct (map fst counts)" by simp
  have z2: "\<forall>counts \<in> set [?A]. \<forall>kv \<in> set counts. 0 \<le> numEnters (snd kv)" by simp
  have z3: "\<exists>counts \<in> set [?A]. map_of counts ''L'' \<noteq> None" by simp
  have e'': "entries [?A] ''L''
      = [\<lparr>numThreads = 0, numEnters = 0, totalMs = 0, maxMs = 0, startTime = 1\<rparr>]"
    by (simp add: entries_def map_filter_simps)
  from status_startTime [OF z1 z2 z3]
  have c: "\<exists>d. map_of (status [?A]) ''L'' = Some d \<and> startTime d = 1"
    unfolding e'' by auto
  from a b c show ?thesis by simp
qed


text \<open>
  C6. Temporary-label round trip. On a map where the label has no active activation
  (no entry, or an entry whose \<open>numThreads\<close> is 0), constructing a temporary
  \<open>TraceContext\<close> and then destructing it gives a map with no entry for the label at
  all, every other entry as it was; when the label had no entry before, the map is
  restored exactly.
\<close>

theorem temporary_round_trip:
  assumes "numThreads (subscript counts label) = 0"
  shows "\<exists>counts'.
           TraceContext_dtor (fst (TraceContext_ctor label True enter counts)) exit
             (snd (TraceContext_ctor label True enter counts)) = Some counts'
           \<and> map_of counts' label = None
           \<and> label \<notin> fst ` set counts'
           \<and> (\<forall>k. k \<noteq> label \<longrightarrow> map_of counts' k = map_of counts k)
           \<and> (map_of counts label = None \<longrightarrow> counts' = counts)"
  using assms
  by (simp add: TraceContext_ctor_def TraceContext_dtor_def Let_def update_conv'
      delete_update_same map_of_delete_same map_of_delete_other delete_notin_dom
      delete_absent)

theorem temporary_round_trip_witness:
  "numThreads (subscript
       [(''a'', \<lparr>numThreads = 1, numEnters = 3, totalMs = 20, maxMs = 15, startTime = 2\<rparr>)]
       ''tmp'') = 0
   \<and> TraceContext_dtor
       (fst (TraceContext_ctor ''tmp'' True 5
          [(''a'', \<lparr>numThreads = 1, numEnters = 3, totalMs = 20, maxMs = 15, startTime = 2\<rparr>)]))
       9
       (snd (TraceContext_ctor ''tmp'' True 5
          [(''a'', \<lparr>numThreads = 1, numEnters = 3, totalMs = 20, maxMs = 15, startTime = 2\<rparr>)]))
     = Some [(''a'', \<lparr>numThreads = 1, numEnters = 3, totalMs = 20, maxMs = 15, startTime = 2\<rparr>)]"
proof -
  have h: "numThreads (subscript
       [(''a'', \<lparr>numThreads = 1, numEnters = 3, totalMs = 20, maxMs = 15, startTime = 2\<rparr>)]
       ''tmp'') = 0"
    by (simp add: subscript_def TraceData_default_def)
  show ?thesis
    using h temporary_round_trip [OF h, where enter = 5 and exit = 9] by auto
qed




text \<open>
  C8. For the maps of threads that each reached their state by constructions and
  destructions, \<open>statusLine()\<close> returns the report of the spec: the lines, in the order
  of the snapshot, of the labels of the \<open>status()\<close> snapshot whose \<open>numThreads\<close> is
  positive, and nothing for the labels whose \<open>numThreads\<close> is 0. The labels of the
  snapshot are distinct, so a label has one line at most. A line is the label, \<open>=\<close>,
  \<open>numThreads\<close>, \<open>entered\<close>, \<open>numEnters\<close>, \<open>avg ms\<close>, \<open>totalMs / numEnters\<close>,
  \<open>max ms\<close>, \<open>maxMs\<close>, \<open>continuous for\<close>, the milliseconds from \<open>startTime\<close> to now,
  and a line feed.
\<close>

theorem statusLine_report:
  assumes "\<forall>s \<in> set threads. reachable s"
  shows "statusLine now (map counts_of threads)
           = Some (statusLine_spec now (status (map counts_of threads)))
         \<and> distinct (map fst (status (map counts_of threads)))
         \<and> (\<forall>label d. status_line_of now (label, d)
              = label @ ''='' @ show_int (numThreads d) @ '' entered ''
                @ show_int (numEnters d) @ '' avg ms ''
                @ show_int (totalMs d div numEnters d) @ '' max ms ''
                @ show_int (maxMs d) @ '' continuous for ''
                @ show_int (duration_cast_ms (now - startTime d)) @ [CHR 0x0A])"
proof -
  let ?snap = "status (map counts_of threads)"
  have z: "\<forall>pair \<in> set ?snap. numThreads (snd pair) \<noteq> 0 \<longrightarrow> numEnters (snd pair) \<noteq> 0"
    using status_entry_inv [OF assms] by fastforce
  have "filter (\<lambda>pair. numThreads (snd pair) \<noteq> 0) ?snap
      = filter (\<lambda>pair. numThreads (snd pair) > 0) ?snap"
    by (rule filter_cong) (use status_entry_inv [OF assms] in fastforce)+
  with statusLine_loop_Some [OF z, of now "[]"]
  have "statusLine now (map counts_of threads) = Some (statusLine_spec now ?snap)"
    by (simp add: statusLine_def statusLine_spec_def)
  then show ?thesis
    by (simp add: distinct_status status_line_of_def Let_def)
qed

theorem statusLine_report_witness:
  "reachable \<lparr>counts_of =
        [(''L'', \<lparr>numThreads = 1, numEnters = 1, totalMs = 0, maxMs = 0, startTime = 5000000\<rparr>)],
        live = [\<lparr>ctx_label = ''L'', ctx_enterTime = 5000000, ctx_isTemporary = False\<rparr>],
        clock = 5000000\<rparr>
   \<and> statusLine 12000000 (map counts_of [\<lparr>counts_of =
        [(''L'', \<lparr>numThreads = 1, numEnters = 1, totalMs = 0, maxMs = 0, startTime = 5000000\<rparr>)],
        live = [\<lparr>ctx_label = ''L'', ctx_enterTime = 5000000, ctx_isTemporary = False\<rparr>],
        clock = 5000000\<rparr>])
     = Some (''L=1 entered 1 avg ms 0 max ms 0 continuous for 7'' @ [CHR 0x0A])"
proof -
  let ?s = "\<lparr>counts_of =
        [(''L'', \<lparr>numThreads = 1, numEnters = 1, totalMs = 0, maxMs = 0, startTime = 5000000\<rparr>)],
        live = [\<lparr>ctx_label = ''L'', ctx_enterTime = 5000000, ctx_isTemporary = False\<rparr>],
        clock = 5000000\<rparr>"
  have "step (Enter ''L'' False 5000000) (thread_init 0) = Some ?s"
    by (simp add: eval_defs)
  from reachable_step [OF reachable_init this] have r: "reachable ?s" .
  then have h: "\<forall>s \<in> set [?s]. reachable s" by simp
  have "statusLine_spec 12000000 (status (map counts_of [?s]))
      = ''L=1 entered 1 avg ms 0 max ms 0 continuous for 7'' @ [CHR 0x0A]"
    by (simp add: statusLine_spec_def status_def merge_entry_def status_line_of_def
        show_int_def eval_defs)
  with statusLine_report [OF h, of 12000000] r show ?thesis by simp
qed

text \<open>
  C10. For a label with an entry in the thread's map: when its \<open>numThreads\<close> is 1, the
  destruction of an instance of the label erases the entry exactly when that instance
  is temporary, whatever the flags of the instances constructed before; and when its
  \<open>numThreads\<close> is 0, whatever \<open>numEnters\<close>, \<open>totalMs\<close> and \<open>maxMs\<close> it has accumulated
  from completed activations, constructing and destructing a temporary instance of
  the label leaves the map with no entry for the label.
\<close>

theorem temporary_erase_discards_history:
  assumes "map_of counts label = Some it"
  shows "(numThreads it = 1 \<longrightarrow>
            (\<forall>this now. ctx_label this = label \<longrightarrow>
               (\<exists>counts'. TraceContext_dtor this now counts = Some counts'
                  \<and> ((map_of counts' label = None) = ctx_isTemporary this))))
         \<and> (numThreads it = 0 \<longrightarrow>
            (\<forall>enter exit. \<exists>counts'.
               TraceContext_dtor (fst (TraceContext_ctor label True enter counts)) exit
                 (snd (TraceContext_ctor label True enter counts)) = Some counts'
               \<and> map_of counts' label = None))"
  using assms
  by (auto simp add: TraceContext_ctor_def TraceContext_dtor_def Let_def update_conv'
      delete_conv' subscript_def)

theorem temporary_erase_discards_history_witness:
  "map_of [(''L'', \<lparr>numThreads = 0, numEnters = 1, totalMs = 50, maxMs = 50, startTime = 5\<rparr>)] ''L''
     = Some \<lparr>numThreads = 0, numEnters = 1, totalMs = 50, maxMs = 50, startTime = 5\<rparr>
   \<and> (\<exists>counts'.
        TraceContext_dtor (fst (TraceContext_ctor ''L'' True 56
            [(''L'', \<lparr>numThreads = 0, numEnters = 1, totalMs = 50, maxMs = 50, startTime = 5\<rparr>)]))
          57
          (snd (TraceContext_ctor ''L'' True 56
            [(''L'', \<lparr>numThreads = 0, numEnters = 1, totalMs = 50, maxMs = 50, startTime = 5\<rparr>)]))
        = Some counts' \<and> map_of counts' ''L'' = None)
   \<and> map_of [(''L'', \<lparr>numThreads = 1, numEnters = 2, totalMs = 50, maxMs = 50, startTime = 5\<rparr>)] ''L''
     = Some \<lparr>numThreads = 1, numEnters = 2, totalMs = 50, maxMs = 50, startTime = 5\<rparr>
   \<and> (\<exists>counts'.
        TraceContext_dtor \<lparr>ctx_label = ''L'', ctx_enterTime = 56, ctx_isTemporary = True\<rparr> 57
          [(''L'', \<lparr>numThreads = 1, numEnters = 2, totalMs = 50, maxMs = 50, startTime = 5\<rparr>)]
        = Some counts' \<and> map_of counts' ''L'' = None)"
proof -
  let ?it0 = "\<lparr>numThreads = 0, numEnters = 1, totalMs = 50, maxMs = 50, startTime = 5\<rparr>"
  let ?it1 = "\<lparr>numThreads = 1, numEnters = 2, totalMs = 50, maxMs = 50, startTime = 5\<rparr>"
  have h0: "map_of [(''L'', ?it0)] ''L'' = Some ?it0" by simp
  have h1: "map_of [(''L'', ?it1)] ''L'' = Some ?it1" by simp
  from temporary_erase_discards_history [OF h0]
  have a: "\<exists>counts'.
        TraceContext_dtor (fst (TraceContext_ctor ''L'' True 56 [(''L'', ?it0)])) 57
          (snd (TraceContext_ctor ''L'' True 56 [(''L'', ?it0)]))
        = Some counts' \<and> map_of counts' ''L'' = None"
    by simp
  from temporary_erase_discards_history [OF h1]
  have "\<forall>this now. ctx_label this = ''L'' \<longrightarrow>
               (\<exists>counts'. TraceContext_dtor this now [(''L'', ?it1)] = Some counts'
                  \<and> ((map_of counts' ''L'' = None) = ctx_isTemporary this))"
    by simp
  from this [rule_format, of "\<lparr>ctx_label = ''L'', ctx_enterTime = 56, ctx_isTemporary = True\<rparr>" 57]
  have b: "\<exists>counts'.
        TraceContext_dtor \<lparr>ctx_label = ''L'', ctx_enterTime = 56, ctx_isTemporary = True\<rparr> 57
          [(''L'', ?it1)] = Some counts' \<and> map_of counts' ''L'' = None"
    by simp
  from h0 a h1 b show ?thesis by blast
qed

end
